theory Spec2Isabelle
  imports Complex_Main "HOL-Library.Log_Nat"
begin

section \<open>aws-list: the data of main.go\<close>

text \<open>
  The provider's answers, as the AWS SDK hands them to main.go. Every string field of
  the SDK's structs is a pointer (\<^verbatim>\<open>*string\<close>), which main.go dereferences
  without a nil check: a field the response omits is \<open>None\<close>, and dereferencing it
  panics. \<open>StateName\<close> is the lifecycle state the provider knows for the instance;
  main.go never reads it.
\<close>

record ec2_tag =
  Key :: "string option"
  Val :: "string option"

record ec2_instance =
  InstanceId :: "string option"
  Tags :: "ec2_tag list"
  ImageId :: "string option"
  StateName :: string

record ec2_reservation =
  Instances :: "ec2_instance list"

record ec2_image =
  CreationDate :: "string option"

record ec2_filter =
  Name :: string
  Values :: "string list"

text \<open>
  An EC2 client (\<^verbatim>\<open>*ec2.EC2\<close>), scoped to one account or role: what the provider
  answers to the two requests main.go makes. \<open>Inl\<close> is the error text of a failed call.
\<close>

record ec2_client =
  DescribeInstances :: "ec2_filter list \<Rightarrow> string + ec2_reservation list"
  DescribeImages :: "string list \<Rightarrow> string + ec2_image list"

text \<open>Instants are nanoseconds since 1970-01-01T00:00:00Z.\<close>

type_synonym time = int

text \<open>What \<^verbatim>\<open>time.Parse\<close> reports: a malformed element, a value out of range
  (with the name of the field), or text after the end of the layout.\<close>

datatype parse_error = ErrBad | OutOfRange string | ExtraText

text \<open>
  The errors main.go builds, one constructor for each \<^verbatim>\<open>fmt.Errorf\<close>, holding the
  arguments of its format string in their order:
  \<^item> \<open>ImageInfo e\<close>: \<^verbatim>\<open>"error getting image info: %s"\<close>
  \<^item> \<open>NoDate id\<close>: \<^verbatim>\<open>"no date for %s"\<close>
  \<^item> \<open>DescribeInstancesFailed e\<close>: \<^verbatim>\<open>"DescribeInstances failed: %s"\<close>
  \<^item> \<open>CreationDateFailed ami e\<close>: \<^verbatim>\<open>"failed to get creation date of %s: %s"\<close>
  \<^item> \<open>ParseTimeFailed create e\<close>: \<^verbatim>\<open>"failed to parse time string %s: %s"\<close>
\<close>

datatype error =
    ImageInfo string
  | NoDate string
  | DescribeInstancesFailed string
  | CreationDateFailed string error
  | ParseTimeFailed string parse_error

datatype panic = NilDereference | IndexOutOfRange

text \<open>A Go call either returns a value, returns an error, or panics.\<close>

datatype 'a result = Ok 'a | Error error | Panic panic

text \<open>
  What main.go writes to standard output, one constructor for each \<^verbatim>\<open>fmt.Printf\<close>
  of the modelled part, holding the arguments of its format string:
  \<^item> \<open>Row acct id name ami create\<close>: \<^verbatim>\<open>"%s %s %s %s %s\n"\<close>
  \<^item> \<open>SyncingError e\<close>: \<^verbatim>\<open>"error syncing account %s\n"\<close>
  \<^item> \<open>RoleError role e\<close>: \<^verbatim>\<open>"Error for role %s %s\n"\<close>
\<close>

datatype printed =
    Row string string string string string
  | SyncingError error
  | RoleError string error

text \<open>The requests sent to the provider, with the answer each one got.\<close>

datatype call =
    InstancesCall "ec2_filter list" "string + ec2_reservation list"
  | ImagesCall "string list" "string + ec2_image list"

text \<open>
  The state of the process: the global \<^verbatim>\<open>cache\<close> (image identifier to creation
  date), what has been printed, the requests made so far, and the wall clock:
  \<open>clock w k\<close> is what the \<open>k\<close>-th call of \<^verbatim>\<open>time.Now()\<close> returns, \<open>ticks w\<close> the
  number of calls made.
\<close>

record world =
  cache :: "string \<rightharpoonup> string"
  stdout :: "printed list"
  calls :: "call list"
  clock :: "nat \<Rightarrow> time"
  ticks :: nat

section \<open>amiCreation\<close>

definition amiCreation :: "ec2_client \<Rightarrow> string \<Rightarrow> world \<Rightarrow> string result \<times> world" where
  "amiCreation svc ident w =
     (case cache w ident of
        Some cached \<Rightarrow> (Ok cached, w)
      | None \<Rightarrow>
          (let result = DescribeImages svc [ident];
               w1 = w\<lparr>calls := calls w @ [ImagesCall [ident] result]\<rparr>
           in case result of
                Inl err \<Rightarrow> (Error (ImageInfo err), w1)
              | Inr [] \<Rightarrow> (Error (NoDate ident), w1)
              | Inr (img # _) \<Rightarrow>
                  (case CreationDate img of
                     None \<Rightarrow> (Panic NilDereference, w1)
                   | Some date \<Rightarrow> (Ok date, w1\<lparr>cache := (cache w1)(ident \<mapsto> date)\<rparr>))))"


section \<open>The standard library calls of Sync\<close>

subsection \<open>\<^verbatim>\<open>time.Parse\<close> with the layout \<^verbatim>\<open>2006-01-02T15:04:05.000Z\<close>\<close>

text \<open>
  Go's parser cuts this layout into the elements year (\<^verbatim>\<open>2006\<close>), month
  (\<^verbatim>\<open>01\<close>), day (\<^verbatim>\<open>02\<close>), hour (\<^verbatim>\<open>15\<close>), minute (\<^verbatim>\<open>04\<close>), second
  (\<^verbatim>\<open>05\<close>) and fraction (\<^verbatim>\<open>.000\<close>), with the literal text between them; the
  \<^verbatim>\<open>Z\<close> at the end is literal text too. The helpers below are those of the \<^verbatim>\<open>time\<close>
  package, on which \<open>time_Parse\<close> runs the elements in order. \<open>None\<close> is \<^verbatim>\<open>errBad\<close>.
\<close>

definition isDigit :: "char \<Rightarrow> bool" where
  "isDigit c \<longleftrightarrow> 48 \<le> (of_char c :: nat) \<and> (of_char c :: nat) \<le> 57"

definition digit :: "char \<Rightarrow> int" where
  "digit c = int (of_char c) - 48"

text \<open>\<^verbatim>\<open>getnum\<close>: one or two digits; exactly two when \<open>fixed\<close>.\<close>

fun getnum :: "string \<Rightarrow> bool \<Rightarrow> (int \<times> string) option" where
  "getnum [] fixed = None"
| "getnum [c] fixed =
     (if \<not> isDigit c then None else if fixed then None else Some (digit c, []))"
| "getnum (c # d # s) fixed =
     (if \<not> isDigit c then None
      else if \<not> isDigit d then (if fixed then None else Some (digit c, d # s))
      else Some (digit c * 10 + digit d, s))"

text \<open>\<^verbatim>\<open>skip\<close>, for a prefix without spaces (the only kind this layout has).\<close>

fun skip :: "string \<Rightarrow> string \<Rightarrow> string option" where
  "skip v [] = Some v"
| "skip [] (p # ps) = None"
| "skip (c # v) (p # ps) = (if c \<noteq> p then None else skip v ps)"

text \<open>\<^verbatim>\<open>leadingInt\<close>: the digits at the front, and the rest.\<close>

fun leadingInt :: "string \<Rightarrow> int \<Rightarrow> int \<times> string" where
  "leadingInt [] x = (x, [])"
| "leadingInt (c # s) x = (if isDigit c then leadingInt s (x * 10 + digit c) else (x, c # s))"

text \<open>\<^verbatim>\<open>atoi\<close>: an optional sign, then digits up to the end.\<close>

definition atoi :: "string \<Rightarrow> int option" where
  "atoi s =
     (let neg = (s \<noteq> [] \<and> hd s = CHR ''-'');
          s1 = (if s \<noteq> [] \<and> (hd s = CHR ''-'' \<or> hd s = CHR ''+'') then tl s else s);
          (q, rem) = leadingInt s1 0
      in if rem \<noteq> [] then None else Some (if neg then - q else q))"

definition commaOrPeriod :: "char \<Rightarrow> bool" where
  "commaOrPeriod c \<longleftrightarrow> c = CHR ''.'' \<or> c = CHR '',''"

text \<open>\<^verbatim>\<open>parseNanoseconds(value, nbytes)\<close>, called with at least \<open>nbytes\<close> bytes
  of \<open>v\<close> and \<open>nbytes \<le> 10\<close>.\<close>

definition parseNanoseconds :: "string \<Rightarrow> nat \<Rightarrow> parse_error + int" where
  "parseNanoseconds v nbytes =
     (if \<not> commaOrPeriod (hd v) then Inl ErrBad
      else case atoi (tl (take nbytes v)) of
             None \<Rightarrow> Inl ErrBad
           | Some ns \<Rightarrow>
               if ns < 0 then Inl (OutOfRange ''fractional second'')
               else Inr (ns * 10 ^ (10 - nbytes)))"

definition isLeap :: "int \<Rightarrow> bool" where
  "isLeap year \<longleftrightarrow> year mod 4 = 0 \<and> (year mod 100 \<noteq> 0 \<or> year mod 400 = 0)"

definition daysBefore :: "int list" where
  "daysBefore = [0, 31, 59, 90, 120, 151, 181, 212, 243, 273, 304, 334, 365]"

definition daysIn :: "int \<Rightarrow> int \<Rightarrow> int" where
  "daysIn m year =
     (if m = 2 \<and> isLeap year then 29 else daysBefore ! nat m - daysBefore ! nat (m - 1))"

text \<open>
  \<^verbatim>\<open>time.Date\<close> in UTC, for a month in \<open>1..12\<close> and the other fields in range (which
  is how \<open>time_Parse\<close> calls it): the days of the proleptic Gregorian calendar from
  0001-01-01 to the day, 719162 of which precede 1970-01-01.
\<close>

definition Date :: "int \<Rightarrow> int \<Rightarrow> int \<Rightarrow> int \<Rightarrow> int \<Rightarrow> int \<Rightarrow> int \<Rightarrow> time" where
  "Date year month day hour minute sec nsec =
     (let y = year - 1;
          days = 365 * y + y div 4 - y div 100 + y div 400
                 + daysBefore ! nat (month - 1)
                 + (if isLeap year \<and> 3 \<le> month then 1 else 0)
                 + (day - 1) - 719162
      in ((days * 86400 + hour * 3600 + minute * 60 + sec) * 1000000000 + nsec))"

definition time_Parse :: "string \<Rightarrow> parse_error + time" where
  "time_Parse v0 =
    (if length v0 < 4 \<or> \<not> isDigit (hd v0) then Inl ErrBad else
     case atoi (take 4 v0) of None \<Rightarrow> Inl ErrBad | Some year \<Rightarrow>
     (case skip (drop 4 v0) ''-'' of None \<Rightarrow> Inl ErrBad | Some v1 \<Rightarrow>
     (case getnum v1 True of None \<Rightarrow> Inl ErrBad | Some (month, v2) \<Rightarrow>
     (if month \<le> 0 \<or> 12 < month then Inl (OutOfRange ''month'') else
     (case skip v2 ''-'' of None \<Rightarrow> Inl ErrBad | Some v3 \<Rightarrow>
     (case getnum v3 True of None \<Rightarrow> Inl ErrBad | Some (day, v4) \<Rightarrow>
     (case skip v4 ''T'' of None \<Rightarrow> Inl ErrBad | Some v5 \<Rightarrow>
     (case getnum v5 False of None \<Rightarrow> Inl ErrBad | Some (hour, v6) \<Rightarrow>
     (if hour < 0 \<or> 24 \<le> hour then Inl (OutOfRange ''hour'') else
     (case skip v6 '':'' of None \<Rightarrow> Inl ErrBad | Some v7 \<Rightarrow>
     (case getnum v7 True of None \<Rightarrow> Inl ErrBad | Some (minute, v8) \<Rightarrow>
     (if minute < 0 \<or> 60 \<le> minute then Inl (OutOfRange ''minute'') else
     (case skip v8 '':'' of None \<Rightarrow> Inl ErrBad | Some v9 \<Rightarrow>
     (case getnum v9 True of None \<Rightarrow> Inl ErrBad | Some (sec, v10) \<Rightarrow>
     (if sec < 0 \<or> 60 \<le> sec then Inl (OutOfRange ''second'') else
     (if length v10 < 4 then Inl ErrBad else
     (case parseNanoseconds v10 4 of Inl e \<Rightarrow> Inl e | Inr nsec \<Rightarrow>
     (case skip (drop 4 v10) ''Z'' of None \<Rightarrow> Inl ErrBad | Some v11 \<Rightarrow>
     (if v11 \<noteq> [] then Inl ExtraText else
     (if day < 1 \<or> daysIn month year < day then Inl (OutOfRange ''day'')
      else Inr (Date year month day hour minute sec nsec)))))))))))))))))))))"

subsection \<open>\<^verbatim>\<open>Time.Sub\<close> and \<^verbatim>\<open>Duration\<close>\<close>

text \<open>A \<^verbatim>\<open>Duration\<close> is an \<^verbatim>\<open>int64\<close> of nanoseconds.\<close>

definition minDuration :: int where "minDuration = - (2 ^ 63)"
definition maxDuration :: int where "maxDuration = 2 ^ 63 - 1"

definition wrap64 :: "int \<Rightarrow> int" where
  "wrap64 x = (x + 2 ^ 63) mod 2 ^ 64 - 2 ^ 63"

text \<open>
  \<^verbatim>\<open>t.Sub(u)\<close> for two wall-clock instants: the difference in \<^verbatim>\<open>int64\<close>
  arithmetic, kept when adding it back to \<open>u\<close> gives \<open>t\<close>, and otherwise the least or the
  greatest \<^verbatim>\<open>Duration\<close>.
\<close>

definition Sub :: "time \<Rightarrow> time \<Rightarrow> int" where
  "Sub t u =
     (let d = wrap64 (t - u)
      in if u + d = t then d else if t < u then minDuration else maxDuration)"

text \<open>Go's integer \<^verbatim>\<open>/\<close> and \<^verbatim>\<open>%\<close> truncate towards zero.\<close>

definition quo :: "int \<Rightarrow> int \<Rightarrow> int" where
  "quo a b = sgn a * sgn b * (\<bar>a\<bar> div \<bar>b\<bar>)"

definition rem :: "int \<Rightarrow> int \<Rightarrow> int" where
  "rem a b = sgn a * (\<bar>a\<bar> mod \<bar>b\<bar>)"

definition Hour :: int where "Hour = 3600000000000"

subsection \<open>\<^verbatim>\<open>float64\<close>\<close>

text \<open>
  A finite \<^verbatim>\<open>float64\<close> is the rational number it stands for. Every operation on
  \<^verbatim>\<open>float64\<close> gives the exact result rounded to the nearest representable number,
  ties to the even significand: \<open>f64\<close> is that rounding, with 53 bits of significand and
  the least exponent \<open>-1022\<close> (below it the spacing stays \<open>2 powi -1074\<close>). Results of
  \<open>2 powi 1024\<close> and more, which \<^verbatim>\<open>float64\<close> turns into an infinity, are out of its
  range: the values of \<open>Hours\<close> stay below \<open>2 ^ 22\<close>.
\<close>

definition rhe :: "rat \<Rightarrow> int" where
  "rhe y =
     (let n = \<lfloor>y\<rfloor>; r = y - of_int n
      in if r < 1 / 2 then n else if 1 / 2 < r then n + 1 else if even n then n else n + 1)"

text \<open>The binary exponent of \<open>x > 0\<close>: \<open>2 powi expo x \<le> x < 2 powi (expo x + 1)\<close>.\<close>

definition expo :: "rat \<Rightarrow> int" where
  "expo x = (if 1 \<le> x then bitlen \<lfloor>x\<rfloor> - 1 else - bitlen (\<lceil>1 / x\<rceil> - 1))"

text \<open>The spacing of the representable numbers around \<open>x > 0\<close>.\<close>

definition ulp :: "rat \<Rightarrow> rat" where
  "ulp x = 2 powi (max (expo x) (- 1022) - 52)"

definition f64 :: "rat \<Rightarrow> rat" where
  "f64 x = (if x = 0 then 0 else sgn x * of_int (rhe (\<bar>x\<bar> / ulp \<bar>x\<bar>)) * ulp \<bar>x\<bar>)"

text \<open>\<^verbatim>\<open>float64(i)\<close> of an integer, and \<^verbatim>\<open>int(x)\<close> of a \<^verbatim>\<open>float64\<close> within the
  range of \<^verbatim>\<open>int\<close>: the fraction is dropped.\<close>

definition float64 :: "int \<Rightarrow> rat" where
  "float64 i = f64 (of_int i)"

definition go_int :: "rat \<Rightarrow> int" where
  "go_int x = (if x < 0 then - \<lfloor>- x\<rfloor> else \<lfloor>x\<rfloor>)"

text \<open>\<^verbatim>\<open>Duration.Hours\<close>.\<close>

definition Hours :: "int \<Rightarrow> rat" where
  "Hours d =
     (let hour = quo d Hour; nsec = rem d Hour
      in f64 (float64 hour + f64 (float64 nsec / f64 3600000000000)))"

subsection \<open>\<^verbatim>\<open>fmt.Sprintf("%d days", n)\<close>\<close>

fun digits :: "nat \<Rightarrow> string" where
  "digits n = (if n < 10 then [char_of (48 + n)] else digits (n div 10) @ [char_of (48 + n mod 10)])"

declare digits.simps [simp del]

definition itoa :: "int \<Rightarrow> string" where
  "itoa n = (if n < 0 then CHR ''-'' # digits (nat (- n)) else digits (nat n))"

definition days_text :: "int \<Rightarrow> string" where
  "days_text n = itoa n @ '' days''"

section \<open>Sync\<close>

text \<open>The loop over the tags of one instance (main.go, lines 107 to 114).\<close>

fun name_loop :: "ec2_tag list \<Rightarrow> string \<Rightarrow> string result" where
  "name_loop [] name = Ok name"
| "name_loop (t # ts) name =
     (case Key t of
        None \<Rightarrow> Panic NilDereference
      | Some k \<Rightarrow>
          if k = ''Name''
          then (case Val t of None \<Rightarrow> Panic NilDereference | Some v \<Rightarrow> name_loop ts v)
          else name_loop ts name)"

text \<open>The whole days of a \<^verbatim>\<open>Duration\<close> (line 141): \<^verbatim>\<open>int(diff.Hours() / 24)\<close>.\<close>

definition whole_days :: "int \<Rightarrow> int" where
  "whole_days diff = go_int (f64 (Hours diff / f64 24))"

text \<open>The age printed for an image created at \<open>t\<close>, at the instant \<open>date\<close>
  (lines 139 to 141).\<close>

definition image_age :: "time \<Rightarrow> time \<Rightarrow> int" where
  "image_age date t = whole_days (Sub date t)"

text \<open>The body of the loop over the instances (lines 97 to 147).\<close>

definition sync_instance ::
  "ec2_client \<Rightarrow> string \<Rightarrow> ec2_instance \<Rightarrow> world \<Rightarrow> unit result \<times> world" where
  "sync_instance svc acct inst w =
     (case InstanceId inst of
        None \<Rightarrow> (Panic NilDereference, w)
      | Some ident \<Rightarrow>
     (case name_loop (Tags inst) ident of
        Panic p \<Rightarrow> (Panic p, w)
      | Error e \<Rightarrow> (Error e, w)
      | Ok name \<Rightarrow>
     (case ImageId inst of
        None \<Rightarrow> (Panic NilDereference, w)
      | Some ami \<Rightarrow>
     (case amiCreation svc ami w of
        (Panic p, w1) \<Rightarrow> (Panic p, w1)
      | (Error e, w1) \<Rightarrow> (Error (CreationDateFailed ami e), w1)
      | (Ok create, w1) \<Rightarrow>
     (case time_Parse create of
        Inl e \<Rightarrow> (Error (ParseTimeFailed create e), w1)
      | Inr t \<Rightarrow>
          (let date = clock w1 (ticks w1);
               w2 = w1\<lparr>ticks := Suc (ticks w1)\<rparr>;
               created = days_text (image_age date t)
           in (Ok (), w2\<lparr>stdout := stdout w2 @ [Row acct ident name ami created]\<rparr>)))))))"

fun instances_loop ::
  "ec2_client \<Rightarrow> string \<Rightarrow> ec2_instance list \<Rightarrow> world \<Rightarrow> unit result \<times> world" where
  "instances_loop svc acct [] w = (Ok (), w)"
| "instances_loop svc acct (inst # insts) w =
     (case sync_instance svc acct inst w of
        (Ok u, w1) \<Rightarrow> instances_loop svc acct insts w1
      | (Error e, w1) \<Rightarrow> (Error e, w1)
      | (Panic p, w1) \<Rightarrow> (Panic p, w1))"

fun reservations_loop ::
  "ec2_client \<Rightarrow> string \<Rightarrow> ec2_reservation list \<Rightarrow> world \<Rightarrow> unit result \<times> world" where
  "reservations_loop svc acct [] w = (Ok (), w)"
| "reservations_loop svc acct (r # rs) w =
     (case instances_loop svc acct (Instances r) w of
        (Ok u, w1) \<Rightarrow> reservations_loop svc acct rs w1
      | (Error e, w1) \<Rightarrow> (Error e, w1)
      | (Panic p, w1) \<Rightarrow> (Panic p, w1))"

text \<open>The filter of the request (lines 79 to 86).\<close>

definition params :: "ec2_filter list" where
  "params = [\<lparr>Name = ''instance-state-name'', Values = [''running'', ''pending'']\<rparr>]"

definition Sync :: "ec2_client \<Rightarrow> string \<Rightarrow> world \<Rightarrow> unit result \<times> world" where
  "Sync svc acct w =
     (let result = DescribeInstances svc params;
          w1 = w\<lparr>calls := calls w @ [InstancesCall params result]\<rparr>
      in case result of
           Inl err \<Rightarrow> (Error (DescribeInstancesFailed err), w1)
         | Inr reservations \<Rightarrow> reservations_loop svc acct reservations w1)"

section \<open>main\<close>

text \<open>
  The session, the identity lookup and the role file are the environment's: \<open>main\<close> is
  modelled from the point where it has them. \<open>svc\<close> is the client of the default
  credentials and \<open>acct\<close> the account of the caller; in role-list mode \<open>ec2_New role\<close> is
  the client that the credentials of the assumed role give, and the scanner has cut the
  file into its lines.
\<close>

definition HasPrefix :: "string \<Rightarrow> string \<Rightarrow> bool" where
  "HasPrefix s p \<longleftrightarrow> take (length p) s = p"

text \<open>\<^verbatim>\<open>strings.Split\<close> for a separator of one byte.\<close>

fun Split :: "string \<Rightarrow> char \<Rightarrow> string list" where
  "Split [] sep = [[]]"
| "Split (c # s) sep =
     (if c = sep then [] # Split s sep
      else case Split s sep of [] \<Rightarrow> [[c]] | f # fs \<Rightarrow> (c # f) # fs)"

definition init :: "(nat \<Rightarrow> time) \<Rightarrow> world" where
  "init clk = \<lparr>cache = Map.empty, stdout = [], calls = [], clock = clk, ticks = 0\<rparr>"


text \<open>The body of the loop over the lines of the role file (lines 224 to 252).\<close>

definition role_step :: "(string \<Rightarrow> ec2_client) \<Rightarrow> string \<Rightarrow> world \<Rightarrow> unit result \<times> world" where
  "role_step ec2_New role w =
     (if HasPrefix role ''#'' then (Ok (), w)
      else
        let svc = ec2_New role;
            data = Split role CHR '':''
        in if length data \<le> 4 then (Panic IndexOutOfRange, w)
           else
             let acct = data ! 4
             in case Sync svc acct w of
                  (Error e, w1) \<Rightarrow> (Ok (), w1\<lparr>stdout := stdout w1 @ [RoleError role e]\<rparr>)
                | (Ok u, w1) \<Rightarrow> (Ok (), w1)
                | (Panic p, w1) \<Rightarrow> (Panic p, w1))"

fun roles_loop :: "(string \<Rightarrow> ec2_client) \<Rightarrow> string list \<Rightarrow> world \<Rightarrow> unit result \<times> world" where
  "roles_loop ec2_New [] w = (Ok (), w)"
| "roles_loop ec2_New (role # roles) w =
     (case role_step ec2_New role w of
        (Ok u, w1) \<Rightarrow> roles_loop ec2_New roles w1
      | (Error e, w1) \<Rightarrow> (Error e, w1)
      | (Panic p, w1) \<Rightarrow> (Panic p, w1))"


section \<open>Observations on a run\<close>







section \<open>Example environments\<close>

text \<open>A clock that stands at 2024-01-11T00:00:00Z.\<close>

definition clock_2024_01_11 :: "nat \<Rightarrow> time" where
  "clock_2024_01_11 k = 1704931200000000000"

definition inst_0 :: ec2_instance where
  "inst_0 = \<lparr>InstanceId = Some ''i-0'', Tags = [], ImageId = Some ''ami-0'', StateName = ''running''\<rparr>"

text \<open>An account with the one instance \<open>inst_0\<close>, whose image was created on
  2024-01-01.\<close>

definition svc_ok :: ec2_client where
  "svc_ok =
     \<lparr>DescribeInstances = (\<lambda>fs. Inr [\<lparr>Instances = [inst_0]\<rparr>]),
      DescribeImages = (\<lambda>ids. Inr [\<lparr>CreationDate = Some ''2024-01-01T00:00:00.000Z''\<rparr>])\<rparr>"

text \<open>The same account through credentials that may not describe images.\<close>

definition svc_denied :: ec2_client where
  "svc_denied =
     \<lparr>DescribeInstances = (\<lambda>fs. Inr [\<lparr>Instances = [inst_0]\<rparr>]),
      DescribeImages = (\<lambda>ids. Inl ''UnauthorizedOperation'')\<rparr>"


text \<open>Credentials that may not list instances.\<close>

definition svc_unlisted :: ec2_client where
  "svc_unlisted =
     \<lparr>DescribeInstances = (\<lambda>fs. Inl ''UnauthorizedOperation''),
      DescribeImages = (\<lambda>ids. Inl ''UnauthorizedOperation'')\<rparr>"

definition role_a :: string where
  "role_a = ''arn:aws:iam::111111111111:role/a''"

definition role_b :: string where
  "role_b = ''arn:aws:iam::123456789091:role/account-name-ABCDFFDFDKLJ''"





text \<open>An account whose image has a creation date twelve hours after the clock.\<close>

definition svc_future :: ec2_client where
  "svc_future =
     \<lparr>DescribeInstances = (\<lambda>fs. Inr [\<lparr>Instances = [inst_0]\<rparr>]),
      DescribeImages = (\<lambda>ids. Inr [\<lparr>CreationDate = Some ''2024-01-11T12:00:00.000Z''\<rparr>])\<rparr>"

text \<open>Two roles: the first may not list instances, the second may.\<close>

definition ec2_New_ab :: "string \<Rightarrow> ec2_client" where
  "ec2_New_ab role = (if role = role_a then svc_unlisted else svc_ok)"



section \<open>Evaluations\<close>

lemma parse_2024_01_01: "time_Parse ''2024-01-01T00:00:00.000Z'' = Inr 1704067200000000000"
  by code_simp

lemma parse_2024_01_11: "time_Parse ''2024-01-11T00:00:00.000Z'' = Inr 1704931200000000000"
  by code_simp

lemma image_age_10: "image_age 1704931200000000000 1704067200000000000 = 10"
  by code_simp

lemma days_text_10: "days_text 10 = ''10 days''"
  by code_simp

lemmas run_simps = sync_instance_def amiCreation_def init_def clock_2024_01_11_def Let_def
  parse_2024_01_01 image_age_10 days_text_10

section \<open>The cache of amiCreation\<close>

lemma amiCreation_hit:
  "cache w ident = Some d \<Longrightarrow> amiCreation svc ident w = (Ok d, w)"
  by (simp add: amiCreation_def)

lemma amiCreation_Ok_cached:
  "amiCreation svc ident w = (Ok d, w1) \<Longrightarrow> cache w1 ident = Some d"
  by (auto simp: amiCreation_def Let_def split: option.splits sum.splits list.splits)

text \<open>
  Claim C4. An identifier that is a key of the cache resolves to the cached value, and
  the state after the call is the state before it: nothing is added to the requests made.
  So when a resolution has returned a timestamp, resolving the same identifier again,
  through any client, returns the same timestamp without a request.
\<close>

theorem cache_hit_no_call:
  "(cache w ident = Some d \<longrightarrow> amiCreation svc ident w = (Ok d, w)) \<and>
   (amiCreation svc ident w = (Ok d, w1) \<longrightarrow> amiCreation svc' ident w1 = (Ok d, w1))"
  using amiCreation_hit amiCreation_Ok_cached by blast

theorem cache_hit_no_call_witness:
  "fst (amiCreation svc_ok ''ami-0'' (init clock_2024_01_11)) = Ok ''2024-01-01T00:00:00.000Z'' \<and>
   calls (snd (amiCreation svc_ok ''ami-0'' (init clock_2024_01_11)))
     = [ImagesCall [''ami-0''] (Inr [\<lparr>CreationDate = Some ''2024-01-01T00:00:00.000Z''\<rparr>])] \<and>
   amiCreation svc_denied ''ami-0'' (snd (amiCreation svc_ok ''ami-0'' (init clock_2024_01_11)))
     = (Ok ''2024-01-01T00:00:00.000Z'', snd (amiCreation svc_ok ''ami-0'' (init clock_2024_01_11)))"
proof -
  have run: "fst (amiCreation svc_ok ''ami-0'' (init clock_2024_01_11)) = Ok ''2024-01-01T00:00:00.000Z''"
    by (simp add: amiCreation_def svc_ok_def init_def)
  have log: "calls (snd (amiCreation svc_ok ''ami-0'' (init clock_2024_01_11)))
     = [ImagesCall [''ami-0''] (Inr [\<lparr>CreationDate = Some ''2024-01-01T00:00:00.000Z''\<rparr>])]"
    by (simp add: amiCreation_def svc_ok_def init_def)
  from run have "amiCreation svc_ok ''ami-0'' (init clock_2024_01_11)
      = (Ok ''2024-01-01T00:00:00.000Z'', snd (amiCreation svc_ok ''ami-0'' (init clock_2024_01_11)))"
    by (metis prod.collapse)
  with cache_hit_no_call [of "init clock_2024_01_11" "''ami-0''" "''2024-01-01T00:00:00.000Z''" svc_ok
      "snd (amiCreation svc_ok ''ami-0'' (init clock_2024_01_11))" svc_denied]
  have "amiCreation svc_denied ''ami-0'' (snd (amiCreation svc_ok ''ami-0'' (init clock_2024_01_11)))
     = (Ok ''2024-01-01T00:00:00.000Z'', snd (amiCreation svc_ok ''ami-0'' (init clock_2024_01_11)))"
    by blast
  with run log show ?thesis by blast
qed

text \<open>
  Claim C5. amiCreation changes the cache only when the provider was asked and answered
  with at least one image: the cache then gains the identifier with the creation date of
  the first image. When the request fails, the result is the error holding the cause and
  the cache is as before; when the answer holds no image, the result is the error naming
  the identifier and the cache is as before. No call that returns an error changes the
  cache.
\<close>

theorem cache_only_on_success:
  assumes "amiCreation svc ident w = (r, w')"
  shows "(cache w' \<noteq> cache w \<longrightarrow>
            (\<exists>img imgs date. cache w ident = None \<and> DescribeImages svc [ident] = Inr (img # imgs)
               \<and> CreationDate img = Some date \<and> r = Ok date \<and> cache w' = (cache w)(ident \<mapsto> date)))
       \<and> (cache w ident = None \<longrightarrow> (\<forall>e. DescribeImages svc [ident] = Inl e \<longrightarrow>
            r = Error (ImageInfo e) \<and> cache w' = cache w))
       \<and> (cache w ident = None \<longrightarrow> DescribeImages svc [ident] = Inr [] \<longrightarrow>
            r = Error (NoDate ident) \<and> cache w' = cache w)
       \<and> ((\<exists>e. r = Error e) \<longrightarrow> cache w' = cache w)"
  using assms
  by (auto simp: amiCreation_def Let_def split: option.splits sum.splits list.splits)

theorem cache_only_on_success_witness:
  "fst (amiCreation svc_denied ''ami-0'' (init clock_2024_01_11)) = Error (ImageInfo ''UnauthorizedOperation'') \<and>
   cache (snd (amiCreation svc_denied ''ami-0'' (init clock_2024_01_11))) = cache (init clock_2024_01_11)"
proof -
  have miss: "cache (init clock_2024_01_11) ''ami-0'' = None"
    by (simp add: init_def)
  have answer: "DescribeImages svc_denied [''ami-0''] = Inl ''UnauthorizedOperation''"
    by (simp add: svc_denied_def)
  have run: "amiCreation svc_denied ''ami-0'' (init clock_2024_01_11)
      = (fst (amiCreation svc_denied ''ami-0'' (init clock_2024_01_11)),
         snd (amiCreation svc_denied ''ami-0'' (init clock_2024_01_11)))"
    by simp
  from cache_only_on_success [OF run] miss answer show ?thesis by blast
qed

section \<open>One instance\<close>

lemma amiCreation_frame:
  "amiCreation svc ident w = (r, w') \<Longrightarrow>
   stdout w' = stdout w \<and> clock w' = clock w \<and> ticks w' = ticks w"
  by (auto simp: amiCreation_def Let_def split: option.splits sum.splits list.splits)


lemma sync_instance_Ok:
  assumes "sync_instance svc acct inst w = (Ok u, w')"
  shows "\<exists>ident name ami create t w1.
           InstanceId inst = Some ident \<and> name_loop (Tags inst) ident = Ok name \<and>
           ImageId inst = Some ami \<and> amiCreation svc ami w = (Ok create, w1) \<and>
           time_Parse create = Inr t \<and>
           w' = w1\<lparr>ticks := Suc (ticks w1),
                   stdout := stdout w1 @ [Row acct ident name ami (days_text (image_age (clock w1 (ticks w1)) t))]\<rparr>"
  using assms
  by (auto simp: sync_instance_def Let_def split: option.splits result.splits sum.splits prod.splits)



section \<open>The lines of the role file\<close>

lemma Split_field:
  "sep \<notin> set f \<Longrightarrow> Split (f @ sep # s) sep = f # Split s sep"
  by (induction f) auto

lemma Split_last:
  "sep \<notin> set f \<Longrightarrow> Split f sep = [f]"
  by (induction f) auto

lemma Split_fifth:
  assumes "sep \<notin> set f0" "sep \<notin> set f1" "sep \<notin> set f2" "sep \<notin> set f3" "sep \<notin> set f4"
    and "rest = [] \<or> hd rest = sep"
  shows "\<exists>fs. Split (f0 @ sep # f1 @ sep # f2 @ sep # f3 @ sep # f4 @ rest) sep = f0 # f1 # f2 # f3 # f4 # fs"
proof (cases rest)
  case Nil
  have "Split (f0 @ sep # f1 @ sep # f2 @ sep # f3 @ sep # f4) sep = [f0, f1, f2, f3, f4]"
    by (simp only: Split_field [OF assms(1)] Split_field [OF assms(2)] Split_field [OF assms(3)]
        Split_field [OF assms(4)] Split_last [OF assms(5)])
  with Nil show ?thesis by simp
next
  case (Cons c r)
  with assms(6) have rest: "rest = sep # r" by simp
  have "Split (f0 @ sep # f1 @ sep # f2 @ sep # f3 @ sep # f4 @ sep # r) sep
      = f0 # f1 # f2 # f3 # f4 # Split r sep"
    by (simp only: Split_field [OF assms(1)] Split_field [OF assms(2)] Split_field [OF assms(3)]
        Split_field [OF assms(4)] Split_field [OF assms(5)])
  with rest show ?thesis by blast
qed


text \<open>
  Claim C9. For a line that is not a comment and has five fields between colons (more
  may follow), the account that Sync is called with is the fifth field as it stands; the
  client is the one of the role that the whole line names.
\<close>

theorem account_is_fifth_field:
  assumes "\<not> HasPrefix role ''#''"
    and "role = f0 @ '':'' @ f1 @ '':'' @ f2 @ '':'' @ f3 @ '':'' @ f4 @ rest"
    and "CHR '':'' \<notin> set (f0 @ f1 @ f2 @ f3 @ f4)"
    and "rest = [] \<or> hd rest = CHR '':''"
  shows "role_step ec2_New role w =
           (case Sync (ec2_New role) f4 w of
              (Error e, w1) \<Rightarrow> (Ok (), w1\<lparr>stdout := stdout w1 @ [RoleError role e]\<rparr>)
            | (Ok u, w1) \<Rightarrow> (Ok (), w1)
            | (Panic p, w1) \<Rightarrow> (Panic p, w1))"
proof -
  from assms(3) have no: "CHR '':'' \<notin> set f0" "CHR '':'' \<notin> set f1" "CHR '':'' \<notin> set f2"
    "CHR '':'' \<notin> set f3" "CHR '':'' \<notin> set f4" by simp_all
  from assms(2) have "role = f0 @ CHR '':'' # f1 @ CHR '':'' # f2 @ CHR '':'' # f3 @ CHR '':'' # f4 @ rest"
    by simp
  with Split_fifth [OF no assms(4)] obtain fs where
    data: "Split role CHR '':'' = f0 # f1 # f2 # f3 # f4 # fs" by blast
  have len: "\<not> length (Split role CHR '':'') \<le> 4" and at: "Split role CHR '':'' ! 4 = f4"
    by (simp_all add: data)
  show ?thesis
    unfolding role_step_def Let_def using assms(1) len at by simp
qed

theorem account_is_fifth_field_witness:
  "\<not> HasPrefix ''arn:aws:iam::123456789091:role/account-name-ABCDFFDFDKLJ'' ''#'' \<and>
   role_step ec2_New_ab ''arn:aws:iam::123456789091:role/account-name-ABCDFFDFDKLJ'' (init clock_2024_01_11) =
     (case Sync (ec2_New_ab ''arn:aws:iam::123456789091:role/account-name-ABCDFFDFDKLJ'') ''123456789091''
             (init clock_2024_01_11) of
        (Error e, w1) \<Rightarrow> (Ok (), w1\<lparr>stdout := stdout w1 @
            [RoleError ''arn:aws:iam::123456789091:role/account-name-ABCDFFDFDKLJ'' e]\<rparr>)
      | (Ok u, w1) \<Rightarrow> (Ok (), w1)
      | (Panic p, w1) \<Rightarrow> (Panic p, w1))"
proof -
  have c: "\<not> HasPrefix ''arn:aws:iam::123456789091:role/account-name-ABCDFFDFDKLJ'' ''#''"
    by (simp add: HasPrefix_def)
  have f: "''arn:aws:iam::123456789091:role/account-name-ABCDFFDFDKLJ''
      = ''arn'' @ '':'' @ ''aws'' @ '':'' @ ''iam'' @ '':'' @ [] @ '':'' @ ''123456789091'' @ '':role/account-name-ABCDFFDFDKLJ''"
    by simp
  have n: "CHR '':'' \<notin> set (''arn'' @ ''aws'' @ ''iam'' @ [] @ ''123456789091'')"
    by simp
  have r: "'':role/account-name-ABCDFFDFDKLJ'' = [] \<or> hd '':role/account-name-ABCDFFDFDKLJ'' = CHR '':''"
    by simp
  from c account_is_fifth_field [OF c f n r, of ec2_New_ab "init clock_2024_01_11"] show ?thesis by blast
qed

lemma roles_loop_append:
  "roles_loop ec2_New (xs @ ys) w =
     (case roles_loop ec2_New xs w of
        (Ok u, w1) \<Rightarrow> roles_loop ec2_New ys w1
      | (Error e, w1) \<Rightarrow> (Error e, w1)
      | (Panic p, w1) \<Rightarrow> (Panic p, w1))"
  by (induction xs arbitrary: w) (auto split: prod.splits result.splits)

text \<open>
  Claim C10. A line that is not a comment and has fewer than five fields between colons
  makes the loop over the role file panic with an index out of range, where the lines
  before it have been processed: nothing is printed for the line and the lines after it
  are not read. The empty line is such a line.
\<close>

theorem short_role_line_panics:
  assumes "roles_loop ec2_New pre w = (Ok (), w1)"
    and "\<not> HasPrefix role ''#''"
    and "length (Split role CHR '':'') < 5"
  shows "roles_loop ec2_New (pre @ role # post) w = (Panic IndexOutOfRange, w1)"
  using assms by (simp add: roles_loop_append role_step_def)

theorem short_role_line_panics_witness:
  "roles_loop ec2_New_ab ([] @ [] # [role_b]) (init clock_2024_01_11)
     = (Panic IndexOutOfRange, init clock_2024_01_11)"
  using short_role_line_panics [of ec2_New_ab "[]" "init clock_2024_01_11" "init clock_2024_01_11" "[]" "[role_b]"]
  by (simp add: HasPrefix_def)

section \<open>The lines of one account\<close>
















section \<open>A failing image\<close>






section \<open>A failing role\<close>

lemma role_step_failed:
  assumes "\<not> HasPrefix role ''#''" "4 < length (Split role CHR '':'')"
    and "Sync (ec2_New role) (Split role CHR '':'' ! 4) w = (Error e, w1)"
  shows "role_step ec2_New role w = (Ok (), w1\<lparr>stdout := stdout w1 @ [RoleError role e]\<rparr>)"
  using assms by (simp add: role_step_def)

lemma role_step_Sync:
  assumes "\<not> HasPrefix role ''#''" "4 < length (Split role CHR '':'')"
  shows "role_step ec2_New role w =
          (case Sync (ec2_New role) (Split role CHR '':'' ! 4) w of
             (Ok u, w1) \<Rightarrow> (Ok (), w1)
           | (Error e, w1) \<Rightarrow> (Ok (), w1\<lparr>stdout := stdout w1 @ [RoleError role e]\<rparr>)
           | (Panic p, w1) \<Rightarrow> (Panic p, w1))"
  using assms by (simp add: role_step_def split: prod.splits result.splits)

text \<open>
  Claim C7. Let the Sync of the role \<open>a\<close> return an error. The loop prints the diagnostic
  for \<open>a\<close> and goes on: when the lines between \<open>a\<close> and a later role \<open>b\<close> are processed,
  the Sync of \<open>b\<close> is run in the state they leave, and the loop continues from what that
  Sync returns.
\<close>

theorem role_failure_is_isolated:
  assumes a: "\<not> HasPrefix a ''#''" "4 < length (Split a CHR '':'')"
    and failed: "Sync (ec2_New a) (Split a CHR '':'' ! 4) w = (Error e, w1)"
    and between: "roles_loop ec2_New mid (w1\<lparr>stdout := stdout w1 @ [RoleError a e]\<rparr>) = (Ok (), w2)"
    and b: "\<not> HasPrefix b ''#''" "4 < length (Split b CHR '':'')"
  shows "roles_loop ec2_New (a # mid @ b # rest) w =
          (case Sync (ec2_New b) (Split b CHR '':'' ! 4) w2 of
             (Ok u, w3) \<Rightarrow> roles_loop ec2_New rest w3
           | (Error e', w3) \<Rightarrow> roles_loop ec2_New rest (w3\<lparr>stdout := stdout w3 @ [RoleError b e']\<rparr>)
           | (Panic p, w3) \<Rightarrow> (Panic p, w3))"
proof -
  have "roles_loop ec2_New (a # mid @ b # rest) w
      = roles_loop ec2_New (mid @ b # rest) (w1\<lparr>stdout := stdout w1 @ [RoleError a e]\<rparr>)"
    using role_step_failed [where ec2_New = ec2_New, OF a failed] by simp
  also have "\<dots> = roles_loop ec2_New (b # rest) w2"
    using between by (simp add: roles_loop_append)
  also have "\<dots> = (case Sync (ec2_New b) (Split b CHR '':'' ! 4) w2 of
             (Ok u, w3) \<Rightarrow> roles_loop ec2_New rest w3
           | (Error e', w3) \<Rightarrow> roles_loop ec2_New rest (w3\<lparr>stdout := stdout w3 @ [RoleError b e']\<rparr>)
           | (Panic p, w3) \<Rightarrow> (Panic p, w3))"
    by (simp add: role_step_Sync [where ec2_New = ec2_New, OF b] split: prod.splits result.splits)
  finally show ?thesis .
qed

lemma Split_role_a: "Split role_a CHR '':'' = [''arn'', ''aws'', ''iam'', [], ''111111111111'', ''role/a'']"
  by (simp add: role_a_def)

lemma Split_role_b:
  "Split role_b CHR '':'' = [''arn'', ''aws'', ''iam'', [], ''123456789091'', ''role/account-name-ABCDFFDFDKLJ'']"
  by (simp add: role_b_def)

theorem role_failure_is_isolated_witness:
  "fst (Sync (ec2_New_ab role_a) ''111111111111'' (init clock_2024_01_11))
     = Error (DescribeInstancesFailed ''UnauthorizedOperation'') \<and>
   stdout (snd (roles_loop ec2_New_ab [role_a, role_b] (init clock_2024_01_11)))
     = [RoleError role_a (DescribeInstancesFailed ''UnauthorizedOperation''),
        Row ''123456789091'' ''i-0'' ''i-0'' ''ami-0'' ''10 days'']"
proof -
  let ?w = "init clock_2024_01_11"
  let ?w1 = "?w\<lparr>calls := calls ?w @ [InstancesCall params (Inl ''UnauthorizedOperation'')]\<rparr>"
  let ?w2 = "?w1\<lparr>stdout := stdout ?w1 @ [RoleError role_a (DescribeInstancesFailed ''UnauthorizedOperation'')]\<rparr>"
  have a: "\<not> HasPrefix role_a ''#''" "4 < length (Split role_a CHR '':'')"
    by (simp_all add: Split_role_a) (simp add: role_a_def HasPrefix_def)
  have b: "\<not> HasPrefix role_b ''#''" "4 < length (Split role_b CHR '':'')"
    by (simp_all add: Split_role_b) (simp add: role_b_def HasPrefix_def)
  have ne: "role_b \<noteq> role_a"
    by (simp add: role_a_def role_b_def)
  have failed: "Sync (ec2_New_ab role_a) (Split role_a CHR '':'' ! 4) ?w
      = (Error (DescribeInstancesFailed ''UnauthorizedOperation''), ?w1)"
    by (simp add: Split_role_a ec2_New_ab_def Sync_def svc_unlisted_def)
  have between: "roles_loop ec2_New_ab [] ?w2 = (Ok (), ?w2)"
    by simp
  have second: "fst (Sync svc_ok ''123456789091'' ?w2) = Ok ()"
    "stdout (snd (Sync svc_ok ''123456789091'' ?w2))
       = [RoleError role_a (DescribeInstancesFailed ''UnauthorizedOperation''),
          Row ''123456789091'' ''i-0'' ''i-0'' ''ami-0'' ''10 days'']"
    by (simp_all add: Sync_def run_simps svc_ok_def inst_0_def)
  from role_failure_is_isolated [where ec2_New = ec2_New_ab and rest = "[]", OF a failed between b]
  have "roles_loop ec2_New_ab [role_a, role_b] ?w
      = (case Sync svc_ok ''123456789091'' ?w2 of
             (Ok u, w3) \<Rightarrow> roles_loop ec2_New_ab [] w3
           | (Error e', w3) \<Rightarrow> roles_loop ec2_New_ab [] (w3\<lparr>stdout := stdout w3 @ [RoleError role_b e']\<rparr>)
           | (Panic p, w3) \<Rightarrow> (Panic p, w3))"
    by (simp add: Split_role_b ec2_New_ab_def ne)
  with second have "stdout (snd (roles_loop ec2_New_ab [role_a, role_b] ?w))
       = [RoleError role_a (DescribeInstancesFailed ''UnauthorizedOperation''),
          Row ''123456789091'' ''i-0'' ''i-0'' ''ami-0'' ''10 days'']"
    by (simp split: prod.splits result.splits)
  moreover from failed have "fst (Sync (ec2_New_ab role_a) ''111111111111'' ?w)
     = Error (DescribeInstancesFailed ''UnauthorizedOperation'')"
    by (simp add: Split_role_a)
  ultimately show ?thesis by blast
qed


section \<open>The requests for image metadata\<close>




















section \<open>Rounding to \<^verbatim>\<open>float64\<close>\<close>

lemma p2_mono: "i \<le> j \<Longrightarrow> (2::rat) powi i \<le> 2 powi j"
  by (rule power_int_increasing) simp_all

lemma p2_less_exp: "(2::rat) powi i < 2 powi j \<Longrightarrow> i < j"
proof (rule ccontr)
  assume lt: "(2::rat) powi i < 2 powi j" and "\<not> i < j"
  then have "j \<le> i" by simp
  from p2_mono [OF this] lt show False by simp
qed

lemma p2_add: "(2::rat) powi (i + j) = 2 powi i * 2 powi j"
  by (rule power_int_add) simp

lemma p2_nat: "0 \<le> k \<Longrightarrow> (2::rat) powi k = of_int (2 ^ nat k)"
  by (simp add: power_int_def)

lemma expo_lower: "0 < x \<Longrightarrow> 2 powi expo x \<le> x"
proof (cases "1 \<le> x")
  case True
  assume "0 < x"
  let ?n = "\<lfloor>x\<rfloor>"
  from True have n: "0 < ?n" by simp
  from bitlen_bounds [OF n] have "2 ^ nat (bitlen ?n - 1) \<le> ?n" by simp
  then have "(of_int (2 ^ nat (bitlen ?n - 1)) :: rat) \<le> of_int ?n"
    by (simp only: of_int_le_iff)
  also have "\<dots> \<le> x" by simp
  finally have "(2::rat) ^ nat (bitlen ?n - 1) \<le> x" by simp
  moreover from n have "1 \<le> bitlen ?n"
    using bitlen_eq_zero_iff [of ?n] bitlen_nonneg [of ?n] by linarith
  ultimately show ?thesis using True
    by (simp add: expo_def power_int_def)
next
  case False
  assume pos: "0 < x"
  let ?m = "\<lceil>1 / x\<rceil> - 1"
  from False pos have "1 < 1 / x" by simp
  then have "1 < \<lceil>1 / x\<rceil>" by (simp add: less_ceiling_iff)
  then have m: "0 < ?m" by simp
  from bitlen_bounds [OF m] have "?m < 2 ^ nat (bitlen ?m)" by simp
  then have "\<lceil>1 / x\<rceil> \<le> 2 ^ nat (bitlen ?m)" by simp
  then have "(of_int \<lceil>1 / x\<rceil> :: rat) \<le> of_int (2 ^ nat (bitlen ?m))"
    by (simp only: of_int_le_iff)
  with le_of_int_ceiling [of "1 / x"] have "1 / x \<le> of_int (2 ^ nat (bitlen ?m))"
    by (rule order_trans)
  then have "1 / x \<le> 2 ^ nat (bitlen ?m)" by simp
  with pos have "1 \<le> 2 ^ nat (bitlen ?m) * x"
    by (simp add: field_simps)
  then have "inverse (2 ^ nat (bitlen ?m)) \<le> x"
    by (simp add: field_simps)
  moreover have "(2::rat) powi expo x = inverse (2 ^ nat (bitlen ?m))"
    using False bitlen_nonneg [of ?m] by (simp add: expo_def power_int_minus p2_nat)
  ultimately show ?thesis by simp
qed

lemma expo_upper: "0 < x \<Longrightarrow> x < 2 powi (expo x + 1)"
proof (cases "1 \<le> x")
  case True
  assume "0 < x"
  let ?n = "\<lfloor>x\<rfloor>"
  from True have n: "0 < ?n" by simp
  from bitlen_bounds [OF n] have "?n + 1 \<le> 2 ^ nat (bitlen ?n)" by simp
  then have "(of_int (?n + 1) :: rat) \<le> of_int (2 ^ nat (bitlen ?n))"
    by (simp only: of_int_le_iff)
  moreover have "x < of_int (?n + 1)" by linarith
  ultimately have "x < 2 ^ nat (bitlen ?n)" by simp
  then show ?thesis using True bitlen_nonneg [of ?n]
    by (simp add: expo_def power_int_def)
next
  case False
  assume pos: "0 < x"
  let ?m = "\<lceil>1 / x\<rceil> - 1"
  from False pos have "1 < 1 / x" by simp
  then have "1 < \<lceil>1 / x\<rceil>" by (simp add: less_ceiling_iff)
  then have m: "0 < ?m" by simp
  then have b: "1 \<le> bitlen ?m"
    using bitlen_eq_zero_iff [of ?m] bitlen_nonneg [of ?m] by linarith
  from bitlen_bounds [OF m] have "2 ^ nat (bitlen ?m - 1) \<le> ?m" by simp
  then have "(of_int (2 ^ nat (bitlen ?m - 1)) :: rat) \<le> of_int ?m"
    by (simp only: of_int_le_iff)
  moreover have "of_int ?m < 1 / x" by linarith
  ultimately have "2 ^ nat (bitlen ?m - 1) < 1 / x" by simp
  with pos have "2 ^ nat (bitlen ?m - 1) * x < 1"
    by (simp add: field_simps)
  then have "x < inverse (2 ^ nat (bitlen ?m - 1))"
    by (simp add: field_simps)
  moreover have "expo x + 1 = - (bitlen ?m - 1)"
    using False by (simp add: expo_def)
  then have "(2::rat) powi (expo x + 1) = inverse (2 ^ nat (bitlen ?m - 1))"
    using b by (simp only: power_int_minus) (simp add: p2_nat)
  ultimately show ?thesis by simp
qed

lemma rhe_le: "y \<le> of_int N \<Longrightarrow> rhe y \<le> N"
proof -
  assume le: "y \<le> of_int N"
  then have "\<lfloor>y\<rfloor> \<le> N" by (simp add: floor_le_iff)
  then consider "\<lfloor>y\<rfloor> < N" | "\<lfloor>y\<rfloor> = N" by linarith
  then show ?thesis
  proof cases
    case 1
    then show ?thesis by (simp add: rhe_def Let_def)
  next
    case 2
    with le have "y - of_int \<lfloor>y\<rfloor> \<le> 0" by simp
    then have "y - of_int \<lfloor>y\<rfloor> < 1 / 2" by linarith
    with 2 show ?thesis by (simp add: rhe_def Let_def)
  qed
qed

lemma rhe_ge: "of_int N \<le> y \<Longrightarrow> N \<le> rhe y"
proof -
  assume "of_int N \<le> y"
  then have "N \<le> \<lfloor>y\<rfloor>" by (simp add: le_floor_iff)
  then show ?thesis by (simp add: rhe_def Let_def)
qed

lemma rhe_below_half: "y < of_int N - 1 / 2 \<Longrightarrow> rhe y \<le> N - 1"
proof -
  assume lt: "y < of_int N - 1 / 2"
  then have "y < of_int N" by linarith
  then have "\<lfloor>y\<rfloor> < N" by (simp add: floor_less_iff)
  then consider "\<lfloor>y\<rfloor> < N - 1" | "\<lfloor>y\<rfloor> = N - 1" by linarith
  then show ?thesis
  proof cases
    case 1
    then show ?thesis by (simp add: rhe_def Let_def)
  next
    case 2
    with lt have "y - of_int \<lfloor>y\<rfloor> < 1 / 2" by simp
    with 2 show ?thesis by (simp add: rhe_def Let_def)
  qed
qed

lemma ulp_pos: "0 < ulp x"
  by (simp add: ulp_def)

lemma f64_pos: "0 < x \<Longrightarrow> f64 x = of_int (rhe (x / ulp x)) * ulp x"
  by (simp add: f64_def)

lemma f64_zero: "f64 0 = 0"
  by (simp add: f64_def)

lemma f64_minus: "f64 (- x) = - f64 x"
  by (simp add: f64_def)

lemma f64_nonneg: "0 \<le> x \<Longrightarrow> 0 \<le> f64 x"
proof (cases "x = 0")
  case True
  then show ?thesis by (simp add: f64_zero)
next
  case False
  assume "0 \<le> x"
  with False have pos: "0 < x" by simp
  then have "0 \<le> x / ulp x" using ulp_pos [of x] by simp
  then have "of_int 0 \<le> x / ulp x" by simp
  from rhe_ge [OF this] have "0 \<le> rhe (x / ulp x)" .
  then show ?thesis using ulp_pos [of x] by (simp add: f64_pos [OF pos])
qed

text \<open>A multiple of a power of two that is at least the spacing is a multiple of the spacing.\<close>

lemma grid_multiple:
  assumes "k \<le> j"
  shows "of_int n * (2::rat) powi j = of_int (n * 2 ^ nat (j - k)) * 2 powi k"
proof -
  have "(2::rat) powi j = 2 powi ((j - k) + k)" by simp
  also have "\<dots> = 2 powi (j - k) * 2 powi k" by (rule p2_add)
  also have "(2::rat) powi (j - k) = of_int (2 ^ nat (j - k))"
    using assms by (simp add: p2_nat)
  finally show ?thesis by simp
qed

lemma ulp_le_grid:
  assumes "0 < x" and "x \<le> of_int n * 2 powi j" and "n < 2 ^ 53" and "- 1074 \<le> j"
  shows "max (expo x) (- 1022) - 52 \<le> j"
proof -
  have "2 powi expo x \<le> x" by (rule expo_lower [OF assms(1)])
  also note assms(2)
  also have "of_int n * (2::rat) powi j < of_int (2 ^ 53) * 2 powi j"
    using assms(3) by (intro mult_strict_right_mono) (simp_all only: of_int_less_iff zero_less_power_int zero_less_numeral)
  also have "\<dots> = 2 powi (53 + j)"
    by (simp add: p2_add)
  finally have "expo x < 53 + j" by (rule p2_less_exp)
  with assms(4) show ?thesis by simp
qed

lemma f64_upper:
  assumes "0 < x" and "x \<le> of_int n * 2 powi j" and "n < 2 ^ 53" and "- 1074 \<le> j"
  shows "f64 x \<le> of_int n * 2 powi j"
proof -
  let ?k = "max (expo x) (- 1022) - 52"
  have k: "?k \<le> j" by (rule ulp_le_grid [OF assms])
  have u: "ulp x = 2 powi ?k" by (simp add: ulp_def)
  let ?N = "n * 2 ^ nat (j - ?k)"
  have h: "of_int n * (2::rat) powi j = of_int ?N * ulp x"
    unfolding u by (rule grid_multiple [OF k])
  with assms(2) have "x \<le> of_int ?N * ulp x" by simp
  then have "x / ulp x \<le> of_int ?N"
    using ulp_pos [of x] by (simp add: field_simps)
  from rhe_le [OF this] have "(of_int (rhe (x / ulp x)) :: rat) \<le> of_int ?N"
    by (simp only: of_int_le_iff)
  then have "of_int (rhe (x / ulp x)) * ulp x \<le> of_int ?N * ulp x"
    using ulp_pos [of x] by (intro mult_right_mono) simp_all
  then show ?thesis by (simp only: f64_pos [OF assms(1)] h)
qed

lemma f64_lower:
  assumes "0 < n" and "of_int n * 2 powi j \<le> x" and "n < 2 ^ 53" and "- 1074 \<le> j"
  shows "of_int n * 2 powi j \<le> f64 x"
proof -
  let ?k = "max (expo x) (- 1022) - 52"
  have u: "ulp x = 2 powi ?k" by (simp add: ulp_def)
  have "0 < of_int n * (2::rat) powi j" using assms(1) by simp
  with assms(2) have pos: "0 < x" by simp
  show ?thesis
  proof (cases "?k \<le> j")
    case True
    let ?N = "n * 2 ^ nat (j - ?k)"
    have h: "of_int n * (2::rat) powi j = of_int ?N * ulp x"
      unfolding u by (rule grid_multiple [OF True])
    with assms(2) have "of_int ?N * ulp x \<le> x" by simp
    then have "of_int ?N \<le> x / ulp x"
      using ulp_pos [of x] by (simp add: field_simps)
    from rhe_ge [OF this] have "(of_int ?N :: rat) \<le> of_int (rhe (x / ulp x))"
      by (simp only: of_int_le_iff)
    then have "of_int ?N * ulp x \<le> of_int (rhe (x / ulp x)) * ulp x"
      using ulp_pos [of x] by (intro mult_right_mono) simp_all
    then show ?thesis by (simp only: f64_pos [OF pos] h)
  next
    case False
    with assms(4) have e: "?k = expo x - 52" "j + 53 \<le> expo x" by simp_all
    have "of_int n * (2::rat) powi j < of_int (2 ^ 53) * 2 powi j"
      using assms(3) by (intro mult_strict_right_mono) (simp_all only: of_int_less_iff zero_less_power_int zero_less_numeral)
    also have "\<dots> = 2 powi (53 + j)" by (simp add: p2_add)
    also have "\<dots> \<le> 2 powi expo x" using e(2) by (intro p2_mono) simp
    finally have below: "of_int n * (2::rat) powi j < 2 powi expo x" .
    have "(2::rat) powi expo x = 2 powi (52 + ?k)" using e(1) by simp
    also have "\<dots> = of_int (2 ^ 52) * ulp x" by (simp only: p2_add u) simp
    finally have top: "(2::rat) powi expo x = of_int (2 ^ 52) * ulp x" .
    from expo_lower [OF pos] top have "of_int (2 ^ 52) * ulp x \<le> x" by simp
    then have "of_int (2 ^ 52) \<le> x / ulp x"
      using ulp_pos [of x] by (simp add: field_simps)
    from rhe_ge [OF this] have "(of_int (2 ^ 52) :: rat) \<le> of_int (rhe (x / ulp x))"
      by (simp only: of_int_le_iff)
    then have "of_int (2 ^ 52) * ulp x \<le> of_int (rhe (x / ulp x)) * ulp x"
      using ulp_pos [of x] by (intro mult_right_mono) simp_all
    then have "2 powi expo x \<le> f64 x" by (simp only: f64_pos [OF pos] top)
    with below show ?thesis by simp
  qed
qed

lemma f64_exact:
  assumes "0 < n" and "n < 2 ^ 53" and "- 1074 \<le> j"
  shows "f64 (of_int n * 2 powi j) = of_int n * 2 powi j"
proof (rule antisym)
  have "0 < of_int n * (2::rat) powi j" using assms(1) by simp
  then show "f64 (of_int n * 2 powi j) \<le> of_int n * 2 powi j"
    by (rule f64_upper [OF _ order_refl assms(2,3)])
  show "of_int n * 2 powi j \<le> f64 (of_int n * 2 powi j)"
    by (rule f64_lower [OF assms(1) _ assms(2,3)]) simp
qed

lemma f64_of_int: "\<bar>n\<bar> < 2 ^ 53 \<Longrightarrow> f64 (of_int n) = of_int n"
proof -
  assume b: "\<bar>n\<bar> < 2 ^ 53"
  have pos: "f64 (of_int m) = of_int m" if "0 < m" "m < 2 ^ 53" for m
    using f64_exact [OF that, of 0] by simp
  consider "n = 0" | "0 < n" | "n < 0" by linarith
  then show ?thesis
  proof cases
    case 1
    then show ?thesis by (simp add: f64_zero)
  next
    case 2
    with b pos [of n] show ?thesis by simp
  next
    case 3
    with b pos [of "- n"] have "f64 (of_int (- n)) = of_int (- n)" by simp
    then show ?thesis by (simp add: f64_minus)
  qed
qed

text \<open>Below an integer by more than half the spacing: the rounding stays below it.\<close>

lemma f64_below_int:
  assumes "0 < x" and "x < of_int M - 2 powi (B - 54)" and "of_int M \<le> (2::rat) powi B"
    and "0 \<le> B" and "B \<le> 53"
  shows "f64 x \<le> of_int M - ulp x"
proof -
  let ?k = "max (expo x) (- 1022) - 52"
  have u: "ulp x = 2 powi ?k" by (simp add: ulp_def)
  have "2 powi expo x \<le> x" by (rule expo_lower [OF assms(1)])
  also have "x < of_int M"
  proof -
    have "0 < (2::rat) powi (B - 54)" by simp
    with assms(2) show ?thesis by linarith
  qed
  also note assms(3)
  finally have "expo x < B" by (rule p2_less_exp)
  with assms(4) have k: "?k \<le> B - 53" by simp
  with assms(5) have k0: "?k \<le> 0" by simp
  let ?N = "M * 2 ^ nat (0 - ?k)"
  have "of_int M * (2::rat) powi 0 = of_int ?N * 2 powi ?k"
    by (rule grid_multiple [OF k0])
  then have M: "of_int M = of_int ?N * ulp x" by (simp add: u)
  have "ulp x = 2 powi ((?k - 1) + 1)" by (simp add: u)
  also have "\<dots> = 2 powi (?k - 1) * 2" by (simp only: p2_add) simp
  finally have half: "2 powi (?k - 1) = ulp x / 2" by simp
  have "(2::rat) powi (?k - 1) \<le> 2 powi (B - 54)"
    using k by (intro p2_mono) simp
  with half have "ulp x / 2 \<le> 2 powi (B - 54)" by simp
  with assms(2) M have "x < of_int ?N * ulp x - ulp x / 2" by linarith
  also have "\<dots> = (of_int ?N - 1 / 2) * ulp x" by (simp add: algebra_simps)
  finally have "x / ulp x < of_int ?N - 1 / 2"
    using ulp_pos [of x] by (simp add: field_simps)
  from rhe_below_half [OF this] have "(of_int (rhe (x / ulp x)) :: rat) \<le> of_int (?N - 1)"
    by (simp only: of_int_le_iff)
  then have "of_int (rhe (x / ulp x)) * ulp x \<le> of_int (?N - 1) * ulp x"
    using ulp_pos [of x] by (intro mult_right_mono) simp_all
  also have "\<dots> = of_int ?N * ulp x - ulp x" by (simp add: algebra_simps)
  also have "\<dots> = of_int M - ulp x" by (simp only: M)
  finally show ?thesis by (simp only: f64_pos [OF assms(1)])
qed

section \<open>The age of an image\<close>

lemma quo_rem_nonneg: "0 \<le> d \<Longrightarrow> quo d Hour = d div Hour \<and> rem d Hour = d mod Hour"
  by (cases "d = 0") (simp_all add: quo_def rem_def Hour_def)

lemma quo_rem_minus: "quo (- d) Hour = - quo d Hour \<and> rem (- d) Hour = - rem d Hour"
  by (simp add: quo_def rem_def)

lemma f64_numeral: "numeral k < (2::int) ^ 53 \<Longrightarrow> f64 (numeral k) = numeral k"
  using f64_of_int [of "numeral k"] by simp

lemma c_val: "of_int 34359738359 * (2::rat) powi (- 35) = 1 - 2 powi (- 32) - 2 powi (- 35)"
  by (simp add: power_int_minus)

lemma frac_bound:
  assumes "0 \<le> m" and "m \<le> Hour - 1000"
  shows "0 \<le> f64 (float64 m / f64 3600000000000)"
    and "f64 (float64 m / f64 3600000000000) \<le> 1 - 2 powi (- 32) - 2 powi (- 35)"
proof -
  from assms have m53: "\<bar>m\<bar> < 2 ^ 53" by (simp add: Hour_def)
  have conv: "float64 m / f64 3600000000000 = of_int m / 3600000000000"
    by (simp add: float64_def f64_of_int [OF m53] f64_numeral)
  have nonneg: "0 \<le> (of_int m :: rat) / 3600000000000" using assms(1) by simp
  show "0 \<le> f64 (float64 m / f64 3600000000000)"
    unfolding conv by (rule f64_nonneg [OF nonneg])
  show "f64 (float64 m / f64 3600000000000) \<le> 1 - 2 powi (- 32) - 2 powi (- 35)"
  proof (cases "m = 0")
    case True
    then have "f64 (of_int m / 3600000000000) = 0" by (simp add: f64_zero)
    then show ?thesis unfolding conv by (simp add: power_int_minus)
  next
    case False
    with assms(1) have pos: "0 < (of_int m :: rat) / 3600000000000" by simp
    from assms(2) have "(of_int m :: rat) \<le> of_int (Hour - 1000)" by (simp only: of_int_le_iff)
    then have "(of_int m :: rat) / 3600000000000 \<le> 3599999999000 / 3600000000000"
      by (simp add: Hour_def)
    also have "\<dots> \<le> of_int 34359738359 * 2 powi (- 35)"
      by (simp add: power_int_minus)
    finally have "f64 (of_int m / 3600000000000) \<le> of_int 34359738359 * 2 powi (- 35)"
      by (intro f64_upper [OF pos]) simp_all
    then show ?thesis by (simp only: conv c_val)
  qed
qed

lemma sum_bound:
  assumes "0 \<le> h" and "h \<le> 2562047" and "0 \<le> f" and "f \<le> 1 - 2 powi (- 32) - 2 powi (- 35)"
  shows "of_int h \<le> f64 (float64 h + f)" and "f64 (float64 h + f) \<le> of_int h + 1 - 2 powi (- 32)"
proof -
  from assms have h53: "\<bar>h\<bar> < 2 ^ 53" by simp
  have conv: "float64 h + f = of_int h + f"
    by (simp add: float64_def f64_of_int [OF h53])
  have nonneg: "0 \<le> of_int h + f" using assms(1,3) by simp
  show "of_int h \<le> f64 (float64 h + f)"
  proof (cases "h = 0")
    case True
    with f64_nonneg [OF nonneg] show ?thesis unfolding conv by simp
  next
    case False
    with assms(1) have "0 < h" by simp
    from f64_lower [OF this _ _ , of 0 "of_int h + f"] assms(2,3)
    show ?thesis unfolding conv by simp
  qed
  show "f64 (float64 h + f) \<le> of_int h + 1 - 2 powi (- 32)"
  proof (cases "of_int h + f = 0")
    case True
    with assms(1,3) have "h = 0" by linarith
    with True show ?thesis unfolding conv by (simp add: f64_zero power_int_minus)
  next
    case False
    with nonneg have pos: "0 < of_int h + f" by simp
    show ?thesis
    proof (cases "h < 2 ^ 21")
      case True
      let ?n = "(h + 1) * 2 ^ 32 - 1"
      have grid: "of_int ?n * (2::rat) powi (- 32) = of_int h + 1 - 2 powi (- 32)"
        by (simp add: power_int_minus field_simps)
      have "of_int h + f \<le> of_int h + 1 - 2 powi (- 32)"
      proof -
        have "0 < (2::rat) powi (- 35)" by simp
        with assms(4) show ?thesis by linarith
      qed
      then have le: "of_int h + f \<le> of_int ?n * 2 powi (- 32)" by (simp only: grid)
      have "?n < 2 ^ 53" using True by simp
      from f64_upper [OF pos le this] show ?thesis by (simp only: conv grid)
    next
      case False
      then have big: "2 ^ 21 \<le> h" by simp
      have lt: "of_int h + f < of_int (h + 1) - 2 powi (22 - 54)"
      proof -
        have "0 < (2::rat) powi (- 35)" by simp
        with assms(4) show ?thesis by simp
      qed
      have "(of_int (h + 1) :: rat) \<le> of_int (2 ^ 22)"
        using assms(2) by (simp only: of_int_le_iff) simp
      then have top: "(of_int (h + 1) :: rat) \<le> 2 powi 22" by simp
      from f64_below_int [OF pos lt top]
      have below: "f64 (of_int h + f) \<le> of_int (h + 1) - ulp (of_int h + f)" by simp
      have "(of_int (2 ^ 21) :: rat) \<le> of_int h" using big by (simp only: of_int_le_iff)
      then have "(2::rat) powi 21 \<le> of_int h + f" using assms(3) by simp
      also have "\<dots> < 2 powi (expo (of_int h + f) + 1)" by (rule expo_upper [OF pos])
      finally have "21 < expo (of_int h + f) + 1" by (rule p2_less_exp)
      then have "- 32 \<le> max (expo (of_int h + f)) (- 1022) - 52" by simp
      from p2_mono [OF this] have "2 powi (- 32) \<le> ulp (of_int h + f)" by (simp only: ulp_def)
      with below show ?thesis unfolding conv by simp
    qed
  qed
qed

lemma Hours_bounds:
  assumes "0 \<le> d" and "d \<le> 2 ^ 63" and "d mod Hour \<le> Hour - 1000"
  shows "of_int (d div Hour) \<le> Hours d" and "Hours d \<le> of_int (d div Hour) + 1 - 2 powi (- 32)"
proof -
  have m: "0 \<le> d mod Hour" by (simp add: Hour_def)
  have h: "0 \<le> d div Hour" using assms(1) by (simp add: Hour_def pos_imp_zdiv_nonneg_iff)
  have "d div Hour \<le> 2 ^ 63 div Hour" using assms(2) by (intro zdiv_mono1) (simp_all add: Hour_def)
  then have h2: "d div Hour \<le> 2562047" by (simp add: Hour_def)
  note f = frac_bound [OF m assms(3)]
  have eq: "Hours d = f64 (float64 (d div Hour) + f64 (float64 (d mod Hour) / f64 3600000000000))"
    using quo_rem_nonneg [OF assms(1)] by (simp add: Hours_def Let_def)
  show "of_int (d div Hour) \<le> Hours d"
    unfolding eq by (rule sum_bound(1) [OF h h2 f])
  show "Hours d \<le> of_int (d div Hour) + 1 - 2 powi (- 32)"
    unfolding eq by (rule sum_bound(2) [OF h h2 f])
qed

lemma whole_days_nonneg:
  assumes "0 \<le> d" and "d \<le> 2 ^ 63" and "d mod Hour \<le> Hour - 1000"
  shows "whole_days d = d div (24 * Hour)"
proof -
  let ?h = "d div Hour"
  let ?q = "?h div 24"
  let ?x = "Hours d / 24"
  note s = Hours_bounds [OF assms]
  have h: "0 \<le> ?h" using assms(1) by (simp add: Hour_def pos_imp_zdiv_nonneg_iff)
  have "?h \<le> 2 ^ 63 div Hour" using assms(2) by (intro zdiv_mono1) (simp_all add: Hour_def)
  then have h2: "?h \<le> 2562047" by (simp add: Hour_def)
  have q: "0 \<le> ?q" using h by (simp add: pos_imp_zdiv_nonneg_iff)
  have q2: "?q \<le> 106751" using h2 by linarith
  have conv: "Hours d / f64 24 = ?x" by (simp add: f64_numeral)
  have "24 * ?q \<le> ?h" by (simp add: algebra_simps)
  then have "(of_int (24 * ?q) :: rat) \<le> of_int ?h" by (simp only: of_int_le_iff)
  with s(1) have lowx: "of_int ?q \<le> ?x" by simp
  have "?h \<le> 24 * ?q + 23"
    using pos_mod_bound [of 24 ?h] mult_div_mod_eq [of 24 ?h] by linarith
  then have "(of_int ?h :: rat) \<le> of_int (24 * ?q + 23)" by (simp only: of_int_le_iff)
  with s(2) have "Hours d \<le> 24 * of_int ?q + 24 - 2 powi (- 32)" by simp
  then have "?x \<le> of_int ?q + 1 - 2 powi (- 32) / 24" by (simp add: field_simps)
  moreover have "(2::rat) powi (- 37) < 2 powi (- 32) / 24" by (simp add: power_int_minus)
  ultimately have upx: "?x < of_int (?q + 1) - 2 powi (17 - 54)" by simp
  have nonneg: "0 \<le> ?x" using lowx q by simp
  have low: "of_int ?q \<le> f64 ?x"
  proof (cases "?q = 0")
    case True
    with f64_nonneg [OF nonneg] show ?thesis by simp
  next
    case False
    with q have "0 < ?q" by simp
    from f64_lower [OF this _ _ , of 0 ?x] q2 lowx show ?thesis by simp
  qed
  have up: "f64 ?x < of_int (?q + 1)"
  proof (cases "?x = 0")
    case True
    with q show ?thesis by (simp add: f64_zero)
  next
    case False
    with nonneg have pos: "0 < ?x" by simp
    have "(of_int (?q + 1) :: rat) \<le> of_int (2 ^ 17)"
      using q2 by (simp only: of_int_le_iff) simp
    then have top: "(of_int (?q + 1) :: rat) \<le> 2 powi 17" by simp
    from f64_below_int [OF pos upx top] have "f64 ?x \<le> of_int (?q + 1) - ulp ?x" by simp
    with ulp_pos [of ?x] show ?thesis by linarith
  qed
  from low up have "\<lfloor>f64 ?x\<rfloor> = ?q" by (simp add: floor_unique)
  moreover have "\<not> f64 ?x < 0"
  proof -
    have "(0::rat) \<le> of_int ?q" using q by simp
    with low show ?thesis by linarith
  qed
  ultimately have "whole_days d = ?q" by (simp add: whole_days_def conv go_int_def)
  also have "?q = d div (24 * Hour)"
    by (simp add: Hour_def div_mult2_eq [symmetric])
  finally show ?thesis .
qed

lemma Hours_minus: "Hours (- d) = - Hours d"
proof -
  have "float64 (- n) = - float64 n" for n by (simp add: float64_def f64_minus)
  then show ?thesis
    using quo_rem_minus [of d] f64_minus [of "float64 (quo d Hour) + f64 (float64 (rem d Hour) / f64 3600000000000)"]
      f64_minus [of "float64 (rem d Hour) / f64 3600000000000"]
    by (simp add: Hours_def Let_def)
qed

lemma go_int_minus: "go_int (- x) = - go_int x"
  by (cases "x = 0") (auto simp: go_int_def)

lemma whole_days_minus: "whole_days (- d) = - whole_days d"
  using f64_minus [of "Hours d / f64 24"] by (simp add: whole_days_def Hours_minus go_int_minus)

lemma whole_days_trunc:
  assumes "\<bar>d\<bar> \<le> 2 ^ 63" and "\<bar>d\<bar> mod Hour \<le> Hour - 1000"
  shows "whole_days d = sgn d * (\<bar>d\<bar> div (24 * Hour))"
proof (cases "0 \<le> d")
  case True
  with assms whole_days_nonneg [of d] show ?thesis
    by (cases "d = 0") (simp_all add: Hour_def)
next
  case False
  then have neg: "d < 0" by simp
  with assms whole_days_nonneg [of "- d"] have "whole_days (- d) = (- d) div (24 * Hour)" by simp
  with neg show ?thesis by (simp add: whole_days_minus)
qed

lemma Sub_range: "\<bar>Sub t u\<bar> \<le> 2 ^ 63"
proof -
  have w: "- (2 ^ 63) \<le> wrap64 (t - u) \<and> wrap64 (t - u) < 2 ^ 63"
    using pos_mod_bound [of "2 ^ 64" "t - u + 2 ^ 63"] pos_mod_sign [of "2 ^ 64" "t - u + 2 ^ 63"]
    by (simp add: wrap64_def)
  have "Sub t u = wrap64 (t - u) \<or> Sub t u = minDuration \<or> Sub t u = maxDuration"
    by (simp add: Sub_def Let_def)
  then show ?thesis
  proof (elim disjE)
    assume "Sub t u = wrap64 (t - u)"
    with w show ?thesis by (simp add: abs_le_iff)
  next
    assume "Sub t u = minDuration"
    then show ?thesis by (simp add: minDuration_def)
  next
    assume "Sub t u = maxDuration"
    then show ?thesis by (simp add: maxDuration_def)
  qed
qed

lemma Sub_exact:
  "minDuration \<le> t - u \<Longrightarrow> t - u \<le> maxDuration \<Longrightarrow> Sub t u = t - u"
proof -
  assume "minDuration \<le> t - u" "t - u \<le> maxDuration"
  then have "0 \<le> t - u + 2 ^ 63" "t - u + 2 ^ 63 < 2 ^ 64"
    by (simp_all add: minDuration_def maxDuration_def)
  then have "wrap64 (t - u) = t - u"
    by (simp add: wrap64_def)
  then show ?thesis by (simp add: Sub_def Let_def)
qed

lemma image_age_trunc:
  assumes "\<bar>Sub date t\<bar> mod Hour \<le> Hour - 1000"
  shows "image_age date t = sgn (Sub date t) * (\<bar>Sub date t\<bar> div (24 * Hour))"
  using whole_days_trunc [OF Sub_range assms] by (simp add: image_age_def)

text \<open>
  Claim C3, as the code has it. The line of an instance holds the age of its image at the
  instant the clock shows when the instance is processed (each instance reads the clock
  once): \<^verbatim>\<open>int(diff.Hours() / 24)\<close>, where \<open>diff\<close> is the clock minus the parsed creation
  date as \<^verbatim>\<open>Time.Sub\<close> gives it, which stays within 2^63 nanoseconds either way. When
  the size of \<open>diff\<close> is at least a microsecond short of the next whole hour, the age is
  the quotient of \<open>diff\<close> by twenty-four hours cut towards zero. So for a creation date that
  is not after the clock and at most the greatest \<^verbatim>\<open>Duration\<close> back, it is the floor of
  the difference in hours by 24.
\<close>

theorem image_age_is_truncated_days:
  assumes "sync_instance svc acct inst w = (Ok u, w')"
  shows "\<exists>ident name ami create t.
           ImageId inst = Some ami \<and> fst (amiCreation svc ami w) = Ok create \<and>
           time_Parse create = Inr t \<and> ticks w' = Suc (ticks w) \<and>
           stdout w' = stdout w @ [Row acct ident name ami (days_text (image_age (clock w (ticks w)) t))] \<and>
           (\<bar>Sub (clock w (ticks w)) t\<bar> mod Hour \<le> Hour - 1000 \<longrightarrow>
              image_age (clock w (ticks w)) t
                = sgn (Sub (clock w (ticks w)) t) * (\<bar>Sub (clock w (ticks w)) t\<bar> div (24 * Hour))) \<and>
           (t \<le> clock w (ticks w) \<and> clock w (ticks w) - t \<le> maxDuration \<and>
            (clock w (ticks w) - t) mod Hour \<le> Hour - 1000 \<longrightarrow>
              image_age (clock w (ticks w)) t = (clock w (ticks w) - t) div (24 * Hour))"
proof -
  from sync_instance_Ok [OF assms] obtain ident name ami create t w1 where
    f: "ImageId inst = Some ami" "amiCreation svc ami w = (Ok create, w1)" "time_Parse create = Inr t"
       "w' = w1\<lparr>ticks := Suc (ticks w1),
                stdout := stdout w1 @ [Row acct ident name ami (days_text (image_age (clock w1 (ticks w1)) t))]\<rparr>"
    by blast
  let ?now = "clock w (ticks w)"
  from amiCreation_frame [OF f(2)] have same: "stdout w1 = stdout w" "clock w1 = clock w" "ticks w1 = ticks w"
    by simp_all
  with f(4) have out: "stdout w' = stdout w @ [Row acct ident name ami (days_text (image_age ?now t))]"
    and tick: "ticks w' = Suc (ticks w)"
    by simp_all
  have trunc: "image_age ?now t = sgn (Sub ?now t) * (\<bar>Sub ?now t\<bar> div (24 * Hour))"
    if "\<bar>Sub ?now t\<bar> mod Hour \<le> Hour - 1000"
    using that by (rule image_age_trunc)
  have floor: "image_age ?now t = (?now - t) div (24 * Hour)"
    if h: "t \<le> ?now \<and> ?now - t \<le> maxDuration \<and> (?now - t) mod Hour \<le> Hour - 1000"
  proof -
    from h have "minDuration \<le> ?now - t" by (simp add: minDuration_def)
    with h have sub: "Sub ?now t = ?now - t" by (simp add: Sub_exact)
    with h have "image_age ?now t = sgn (?now - t) * (\<bar>?now - t\<bar> div (24 * Hour))"
      using image_age_trunc [of ?now t] by simp
    with h show ?thesis by (cases "?now = t") (simp_all add: Hour_def)
  qed
  from f(2) have "fst (amiCreation svc ami w) = Ok create" by simp
  with f(1,3) out tick trunc floor show ?thesis by blast
qed

theorem image_age_is_truncated_days_witness:
  "time_Parse ''2024-01-11T00:00:00.000Z'' = Inr (clock_2024_01_11 0) \<and>
   DescribeImages svc_ok [''ami-0''] = Inr [\<lparr>CreationDate = Some ''2024-01-01T00:00:00.000Z''\<rparr>] \<and>
   (\<exists>ident name.
      stdout (snd (sync_instance svc_ok ''123456789091'' inst_0 (init clock_2024_01_11)))
        = [Row ''123456789091'' ident name ''ami-0'' ''10 days''])"
proof -
  let ?w = "init clock_2024_01_11"
  have "fst (sync_instance svc_ok ''123456789091'' inst_0 ?w) = Ok ()"
    by (simp add: run_simps svc_ok_def inst_0_def)
  then have run: "sync_instance svc_ok ''123456789091'' inst_0 ?w
      = (Ok (), snd (sync_instance svc_ok ''123456789091'' inst_0 ?w))"
    by (metis prod.collapse)
  have now: "clock ?w (ticks ?w) = 1704931200000000000" and out: "stdout ?w = []"
    by (simp_all add: init_def clock_2024_01_11_def)
  have img: "ImageId inst_0 = Some ''ami-0''"
    by (simp add: inst_0_def)
  have res: "fst (amiCreation svc_ok ''ami-0'' ?w) = Ok ''2024-01-01T00:00:00.000Z''"
    by (simp add: amiCreation_def svc_ok_def init_def)
  from image_age_is_truncated_days [OF run] obtain ident name ami create t where
    g: "ImageId inst_0 = Some ami" "fst (amiCreation svc_ok ami ?w) = Ok create"
       "time_Parse create = Inr t"
       "stdout (snd (sync_instance svc_ok ''123456789091'' inst_0 ?w))
          = stdout ?w @ [Row ''123456789091'' ident name ami (days_text (image_age (clock ?w (ticks ?w)) t))]"
       "t \<le> clock ?w (ticks ?w) \<and> clock ?w (ticks ?w) - t \<le> maxDuration \<and>
          (clock ?w (ticks ?w) - t) mod Hour \<le> Hour - 1000 \<longrightarrow>
        image_age (clock ?w (ticks ?w)) t = (clock ?w (ticks ?w) - t) div (24 * Hour)"
    by blast
  from g(1) img have ami: "ami = ''ami-0''" by simp
  with g(2) res have "create = ''2024-01-01T00:00:00.000Z''" by simp
  with g(3) have t: "t = 1704067200000000000" by (simp add: parse_2024_01_01)
  from g(5) have "image_age 1704931200000000000 1704067200000000000 = 10"
    unfolding now t by (simp add: maxDuration_def Hour_def)
  with g(4) have "stdout (snd (sync_instance svc_ok ''123456789091'' inst_0 ?w))
          = [Row ''123456789091'' ident name ''ami-0'' ''10 days'']"
    unfolding now t ami out by (simp add: days_text_10)
  moreover have "time_Parse ''2024-01-11T00:00:00.000Z'' = Inr (clock_2024_01_11 0)"
    by (simp add: parse_2024_01_11 clock_2024_01_11_def)
  moreover have "DescribeImages svc_ok [''ami-0''] = Inr [\<lparr>CreationDate = Some ''2024-01-01T00:00:00.000Z''\<rparr>]"
    by (simp add: svc_ok_def)
  ultimately show ?thesis by blast
qed

lemma parse_2024_01_11_noon: "time_Parse ''2024-01-11T12:00:00.000Z'' = Inr 1704974400000000000"
  by code_simp

lemma parse_1700: "time_Parse ''1700-01-01T00:00:00.000Z'' = Inr (- 8520336000000000000)"
  by code_simp

lemma image_age_future: "image_age 1704931200000000000 1704974400000000000 = 0"
  by code_simp

lemma image_age_edge: "image_age 1718841599999999999 1704067200000000000 = 171"
  by code_simp

lemma image_age_1700: "image_age 1704931200000000000 (- 8520336000000000000) = 106751"
  by code_simp

lemma days_text_0: "days_text 0 = ''0 days''"
  by code_simp

text \<open>
  Claim C3, as stated, fails in three ways. A creation date twelve hours after the clock
  is printed as \<^verbatim>\<open>0 days\<close>, where the floor is \<open>-1\<close>. A nanosecond before 171 days
  the sum in \<^verbatim>\<open>Hours\<close> rounds up to 4104 hours and the age is 171, where the floor is
  170. An image of the year 1700 is 106751 days old on 2024-01-11, the greatest
  \<^verbatim>\<open>Duration\<close>, where the floor is 118348.
\<close>

theorem image_age_is_not_the_floor:
  "time_Parse ''2024-01-11T12:00:00.000Z'' = Inr 1704974400000000000 \<and>
   clock_2024_01_11 0 = 1704931200000000000 \<and>
   stdout (snd (Sync svc_future ''123456789091'' (init clock_2024_01_11)))
     = [Row ''123456789091'' ''i-0'' ''i-0'' ''ami-0'' ''0 days''] \<and>
   (1704931200000000000 - 1704974400000000000) div (24 * Hour) = - 1 \<and>
   image_age 1718841599999999999 1704067200000000000 = 171 \<and>
   (1718841599999999999 - 1704067200000000000) div (24 * Hour) = 170 \<and>
   time_Parse ''1700-01-01T00:00:00.000Z'' = Inr (- 8520336000000000000) \<and>
   image_age 1704931200000000000 (- 8520336000000000000) = 106751 \<and>
   (1704931200000000000 - (- 8520336000000000000)) div (24 * Hour) = 118348"
proof -
  have "stdout (snd (Sync svc_future ''123456789091'' (init clock_2024_01_11)))
     = [Row ''123456789091'' ''i-0'' ''i-0'' ''ami-0'' ''0 days'']"
    by (simp add: Sync_def sync_instance_def amiCreation_def init_def clock_2024_01_11_def Let_def
        svc_future_def inst_0_def parse_2024_01_11_noon image_age_future days_text_0)
  then show ?thesis
    by (simp add: parse_2024_01_11_noon parse_1700 image_age_edge image_age_1700
        clock_2024_01_11_def Hour_def)
qed


end
